theory Spec2Isabelle
  imports Main "HOL-Library.Word"
begin

unbundle bit_operations_syntax

text \<open>
  A model of \<open>jingo/__init__.py\<close>, the adapter for using Jinja2 with Django: the
  flattening of the context in \<open>Template.render\<close>, the context resolver of
  \<open>render_to_string\<close>, the one-time loading of helpers, and the cached inclusion tag
  with its cache key.  Line numbers are those of that file.
\<close>

section \<open>Python values and strings\<close>

text \<open>
  The values that reach the adapter as call arguments.  Strings are Python 2 byte
  strings, integers are unbounded.
\<close>

datatype pyval = PyNone | PyBool bool | PyInt int | PyStr string

text \<open>Exceptions: the two classes the loader catches by name, and every other one.\<close>

datatype exn = AttributeError | ImportError | OtherError string

type_synonym dict = "string \<rightharpoonup> pyval"

text \<open>\<open>str(n)\<close> of a non-negative integer: its decimal digits.\<close>

fun dec_digits :: "nat \<Rightarrow> string" where
  "dec_digits n =
     (if n < 10 then [''0123456789'' ! n]
      else dec_digits (n div 10) @ [''0123456789'' ! (n mod 10)])"

definition str_int :: "int \<Rightarrow> string" where
  "str_int i = (if i < 0 then CHR ''-'' # dec_digits (nat (- i)) else dec_digits (nat i))"

text \<open>\<open>str(a)\<close>, which is also what \<open>'%s' % a\<close> inserts.\<close>

fun py_str :: "pyval \<Rightarrow> string" where
  "py_str PyNone = ''None''"
| "py_str (PyBool b) = (if b then ''True'' else ''False'')"
| "py_str (PyInt i) = str_int i"
| "py_str (PyStr s) = s"

text \<open>\<open>sep.join(xs)\<close>.\<close>

fun join :: "string \<Rightarrow> string list \<Rightarrow> string" where
  "join sep [] = []"
| "join sep [x] = x"
| "join sep (x # y # ys) = x @ sep @ join sep (y # ys)"

section \<open>MD5 (RFC 1321), as \<open>hashlib.md5(s).hexdigest()\<close> computes it\<close>

type_synonym u32 = "32 word"

definition md5_shifts :: "nat list" where
  "md5_shifts =
    [7, 12, 17, 22, 7, 12, 17, 22, 7, 12, 17, 22, 7, 12, 17, 22,
     5, 9, 14, 20, 5, 9, 14, 20, 5, 9, 14, 20, 5, 9, 14, 20,
     4, 11, 16, 23, 4, 11, 16, 23, 4, 11, 16, 23, 4, 11, 16, 23,
     6, 10, 15, 21, 6, 10, 15, 21, 6, 10, 15, 21, 6, 10, 15, 21]"

definition md5_sines :: "u32 list" where
  "md5_sines =
    [0xd76aa478, 0xe8c7b756, 0x242070db, 0xc1bdceee, 0xf57c0faf, 0x4787c62a, 0xa8304613, 0xfd469501,
     0x698098d8, 0x8b44f7af, 0xffff5bb1, 0x895cd7be, 0x6b901122, 0xfd987193, 0xa679438e, 0x49b40821,
     0xf61e2562, 0xc040b340, 0x265e5a51, 0xe9b6c7aa, 0xd62f105d, 0x02441453, 0xd8a1e681, 0xe7d3fbc8,
     0x21e1cde6, 0xc33707d6, 0xf4d50d87, 0x455a14ed, 0xa9e3e905, 0xfcefa3f8, 0x676f02d9, 0x8d2a4c8a,
     0xfffa3942, 0x8771f681, 0x6d9d6122, 0xfde5380c, 0xa4beea44, 0x4bdecfa9, 0xf6bb4b60, 0xbebfbc70,
     0x289b7ec6, 0xeaa127fa, 0xd4ef3085, 0x04881d05, 0xd9d4d039, 0xe6db99e5, 0x1fa27cf8, 0xc4ac5665,
     0xf4292244, 0x432aff97, 0xab9423a7, 0xfc93a039, 0x655b59c3, 0x8f0ccc92, 0xffeff47d, 0x85845dd1,
     0x6fa87e4f, 0xfe2ce6e0, 0xa3014314, 0x4e0811a1, 0xf7537e82, 0xbd3af235, 0x2ad7d2bb, 0xeb86d391]"

definition rotl32 :: "u32 \<Rightarrow> nat \<Rightarrow> u32" where
  "rotl32 x n = push_bit n x OR drop_bit (32 - n) x"

text \<open>The \<open>n\<close> low bytes of a number, least significant first.\<close>

fun le_bytes :: "nat \<Rightarrow> int \<Rightarrow> int list" where
  "le_bytes 0 v = []"
| "le_bytes (Suc n) v = (v mod 256) # le_bytes n (v div 256)"

text \<open>
  Padding: one byte 0x80, zero bytes up to 56 modulo 64, then the length of the message
  in bits as eight little-endian bytes.
\<close>

definition md5_pad :: "int list \<Rightarrow> int list" where
  "md5_pad bs =
     bs @ [128] @ replicate ((119 - length bs mod 64) mod 64) 0
        @ le_bytes 8 (8 * int (length bs))"

fun le_word :: "int list \<Rightarrow> u32" where
  "le_word [] = 0"
| "le_word (b # bs) = word_of_int b + push_bit 8 (le_word bs)"

text \<open>The first \<open>n\<close> pieces of \<open>k\<close> elements each.\<close>

fun chunks :: "nat \<Rightarrow> nat \<Rightarrow> 'a list \<Rightarrow> 'a list list" where
  "chunks 0 k xs = []"
| "chunks (Suc n) k xs = take k xs # chunks n k (drop k xs)"

definition md5_round ::
  "u32 list \<Rightarrow> nat \<Rightarrow> u32 \<times> u32 \<times> u32 \<times> u32 \<Rightarrow> u32 \<times> u32 \<times> u32 \<times> u32" where
  "md5_round m i = (\<lambda>(a, b, c, d).
     let (f, g) =
           (if i < 16 then ((b AND c) OR (NOT b AND d), i)
            else if i < 32 then ((d AND b) OR (NOT d AND c), (5 * i + 1) mod 16)
            else if i < 48 then (b XOR c XOR d, (3 * i + 5) mod 16)
            else (c XOR (b OR NOT d), (7 * i) mod 16));
         f' = f + a + md5_sines ! i + m ! g
     in (d, b + rotl32 f' (md5_shifts ! i), b, c))"

definition md5_block ::
  "u32 \<times> u32 \<times> u32 \<times> u32 \<Rightarrow> int list \<Rightarrow> u32 \<times> u32 \<times> u32 \<times> u32" where
  "md5_block h blk =
     (let m = map le_word (chunks 16 4 blk);
          (a0, b0, c0, d0) = h;
          (a, b, c, d) = fold (md5_round m) [0..<64] h
      in (a0 + a, b0 + b, c0 + c, d0 + d))"

definition hex_byte :: "int \<Rightarrow> string" where
  "hex_byte b =
     [''0123456789abcdef'' ! nat (b div 16), ''0123456789abcdef'' ! nat (b mod 16)]"

definition md5_hexdigest :: "string \<Rightarrow> string" where
  "md5_hexdigest s =
     (let bs = md5_pad (map of_char s);
          (a, b, c, d) =
             fold (\<lambda>blk h. md5_block h blk) (chunks (length bs div 64) 64 bs)
               (0x67452301, 0xefcdab89, 0x98badcfe, 0x10325476)
      in concat (map hex_byte (concat (map (\<lambda>w. le_bytes 4 (uint w)) [a, b, c, d]))))"

section \<open>\<open>Register.cached_inclusion_tag\<close>\<close>

text \<open>
  The keyword arguments \<open>kw\<close> of a call are the list \<open>kw.items()\<close> returns: the pairs of
  the dictionary in its own iteration order.  The string hashed at lines 194 to 197:
\<close>

definition arg_signature :: "pyval list \<Rightarrow> (string \<times> pyval) list \<Rightarrow> string" where
  "arg_signature args kw =
     join ''_'' [join ''_'' (map py_str args),
                 join ''_'' (map (\<lambda>(k, v). k @ ''_'' @ py_str v) kw)]"

text \<open>Lines 193 to 199: the value of \<open>key_\<close>.\<close>

definition cache_key :: "string \<Rightarrow> bool \<Rightarrow> pyval list \<Rightarrow> (string \<times> pyval) list \<Rightarrow> string" where
  "cache_key key kwargs args kw =
     (if kwargs \<and> (args \<noteq> [] \<or> kw \<noteq> [])
      then key @ ''_'' @ md5_hexdigest (arg_signature args kw)
      else key)"

text \<open>\<open>jinja2.Markup(t)\<close>: text marked as safe.\<close>

datatype markup = Markup string

text \<open>
  What a call of the wrapper does to the world outside it, in program order: reads and
  writes of the cache, the call of the decorated function, the rendering of the template.
\<close>

datatype 'c effect =
    CacheGet string
  | CallTag "pyval list" "(string \<times> pyval) list"
  | RenderTemplate string 'c
  | CacheSet string string

text \<open>
  The cache is Django's \<open>cache\<close> object, used through \<open>get\<close> and \<open>set\<close> only: a
  store from keys to rendered text, in which \<open>get\<close> of an absent key is \<open>None\<close> and
  a text that was set is there until it is set again (nothing expires between the calls
  considered here).
\<close>

record 'c tag_state =
  cache :: "string \<rightharpoonup> string"
  effects :: "'c effect list"

text \<open>
  The wrapper of lines 192 to 207.  The decorated function \<open>f\<close> returns a context or
  raises; \<open>render template context\<close> stands for
  \<open>env.get_template(template).render(context)\<close>, which returns text or raises.  An
  exception leaves the wrapper at once, with the state as it is then.
\<close>

definition cached_inclusion_tag ::
  "string \<Rightarrow> string \<Rightarrow> bool \<Rightarrow> (pyval list \<Rightarrow> (string \<times> pyval) list \<Rightarrow> exn + 'c) \<Rightarrow>
   (string \<Rightarrow> 'c \<Rightarrow> exn + string) \<Rightarrow>
   pyval list \<Rightarrow> (string \<times> pyval) list \<Rightarrow> 'c tag_state \<Rightarrow> (exn + markup) \<times> 'c tag_state" where
  "cached_inclusion_tag template key kwargs f render args kw s =
     (let key' = cache_key key kwargs args kw;
          s1 = s\<lparr>effects := effects s @ [CacheGet key']\<rparr>
      in case cache s1 key' of
           Some t \<Rightarrow> (Inr (Markup t), s1)
         | None \<Rightarrow>
             (let s2 = s1\<lparr>effects := effects s1 @ [CallTag args kw]\<rparr>
              in case f args kw of
                   Inl e \<Rightarrow> (Inl e, s2)
                 | Inr context \<Rightarrow>
                     (let s3 = s2\<lparr>effects := effects s2 @ [RenderTemplate template context]\<rparr>
                      in case render template context of
                           Inl e \<Rightarrow> (Inl e, s3)
                         | Inr t \<Rightarrow>
                             (Inr (Markup t),
                              s3\<lparr>cache := (cache s3)(key' \<mapsto> t),
                                 effects := effects s3 @ [CacheSet key' t]\<rparr>))))"

text \<open>Whether an effect is a rendering of the template.\<close>

fun is_render :: "'c effect \<Rightarrow> bool" where
  "is_render (RenderTemplate t c) = True"
| "is_render e = False"

section \<open>\<open>Template.render\<close>: flattening the context\<close>

text \<open>
  The argument of \<open>Template.render\<close> is a Django \<open>Context\<close>, whose layers are the
  attribute \<open>dicts\<close> (read with \<open>getattr(context, 'dicts', [])\<close>, so an absent
  attribute counts as no layer), or any other mapping.
\<close>

datatype django_context = Context "dict list option" | Mapping dict

text \<open>\<open>d.update(e)\<close> on the contents: the keys of \<open>e\<close> overwrite those of \<open>d\<close>.\<close>

definition update :: "dict \<Rightarrow> dict \<Rightarrow> dict" where
  "update d e = d ++ e"

text \<open>Lines 34 to 39: the value of \<open>context_dict\<close> after the loop.\<close>

fun update_all :: "dict \<Rightarrow> dict list \<Rightarrow> dict" where
  "update_all context_dict [] = context_dict"
| "update_all context_dict (d # ds) = update_all (update context_dict d) ds"

fun flatten_context :: "django_context \<Rightarrow> dict" where
  "flatten_context (Context dicts) =
     update_all Map.empty (case dicts of None \<Rightarrow> [] | Some ds \<Rightarrow> ds)"
| "flatten_context (Mapping m) = update Map.empty m"

section \<open>Dictionary objects\<close>

text \<open>
  Dictionaries are objects: \<open>copy\<close> makes a new one, \<open>update\<close> changes one in place,
  and two names may refer to the same one.  The store maps the address of every
  dictionary object to its contents; the addresses below \<open>fresh\<close> are in use.
\<close>

type_synonym addr = nat

record store =
  cells :: "addr \<Rightarrow> dict"
  fresh :: addr

text \<open>A new dictionary object with the contents \<open>d\<close>.\<close>

definition alloc :: "dict \<Rightarrow> 'a store_scheme \<Rightarrow> addr \<times> 'a store_scheme" where
  "alloc d s = (fresh s, s\<lparr>cells := (cells s)(fresh s := d), fresh := Suc (fresh s)\<rparr>)"

text \<open>\<open>a.update(e)\<close> on the object at \<open>a\<close>.\<close>

definition dict_update :: "addr \<Rightarrow> dict \<Rightarrow> 'a store_scheme \<Rightarrow> 'a store_scheme" where
  "dict_update a e s = s\<lparr>cells := (cells s)(a := update (cells s a) e)\<rparr>"

section \<open>\<open>render_to_string\<close> and its \<open>get_context\<close>\<close>

text \<open>
  A request carries its own data and, once the resolver has run, the attribute
  \<open>_jingo_context\<close>: a reference to a dictionary.
\<close>

record 'r request =
  req_data :: 'r
  jingo_context :: "addr option"

text \<open>
  A context processor, with the name it is known by: a function that, called with the
  request, returns a mapping or raises.  \<open>get_standard_processors()\<close> is a list of
  them.
\<close>

type_synonym 'r processor = "string \<times> ('r request \<Rightarrow> exn + dict)"

text \<open>
  The world \<open>get_context\<close> runs in: the dictionary objects, the request, and the names
  of the processors invoked so far, in order.
\<close>

record 'r world = store +
  request :: "'r request"
  invoked :: "string list"

text \<open>
  Lines 118 and 119: the loop over the processors, \<open>a\<close> being \<open>request._jingo_context\<close>.
  A processor that raises ends the loop, and the call, with its exception; what the
  processors before it returned is in the dictionary by then.
\<close>

fun run_processors :: "'r processor list \<Rightarrow> addr \<Rightarrow> 'r world \<Rightarrow> exn option \<times> 'r world" where
  "run_processors [] a w = (None, w)"
| "run_processors (p # ps) a w =
     (let w1 = w\<lparr>invoked := invoked w @ [fst p]\<rparr>
      in case snd p (request w1) of
           Inl e \<Rightarrow> (Some e, w1)
         | Inr d \<Rightarrow> run_processors ps a (dict_update a d w1))"

text \<open>
  Lines 114 to 122.  \<open>context\<close> is the argument of \<open>render_to_string\<close>: \<open>None\<close> or a
  reference to the caller's dictionary.  The result is a reference to \<open>ctx\<close>, or the
  exception of a processor; the attribute \<open>_jingo_context\<close> is set at line 117, before
  the first processor is called, and stays set when one raises.
\<close>

definition get_context ::
  "'r processor list \<Rightarrow> addr option \<Rightarrow> 'r world \<Rightarrow> (exn + addr) \<times> 'r world" where
  "get_context processors context w =
     (case (case jingo_context (request w) of
              None \<Rightarrow>
                (let (a, w') = alloc Map.empty w;
                     w'' = w'\<lparr>request := (request w')\<lparr>jingo_context := Some a\<rparr>\<rparr>
                 in case run_processors processors a w'' of
                      (Some e, w1) \<Rightarrow> (Inl e, w1)
                    | (None, w1) \<Rightarrow> (Inr a, w1))
            | Some a \<Rightarrow> (Inr a, w)) of
        (Inl e, w1) \<Rightarrow> (Inl e, w1)
      | (Inr jc, w1) \<Rightarrow>
          (let (ctx, w2) =
                 (case context of
                    None \<Rightarrow> alloc Map.empty w1
                  | Some c \<Rightarrow> alloc (cells w1 c) w1);
               w3 = dict_update ctx (cells w2 jc) w2
           in (Inr ctx, w3)))"

text \<open>The contents of the caller's explicit context: empty when there is none.\<close>

definition explicit_mapping :: "'a store_scheme \<Rightarrow> addr option \<Rightarrow> dict" where
  "explicit_mapping s context = (case context of None \<Rightarrow> Map.empty | Some c \<Rightarrow> cells s c)"

text \<open>
  A world to run the resolver in: the caller's dictionary \<open>{"x": 1}\<close> at address 0, and
  a request that has not been resolved yet.
\<close>

definition example_world :: "unit world" where
  "example_world =
     \<lparr>cells = (\<lambda>a. Map.empty)(0 := [''x'' \<mapsto> PyInt 1]), fresh = 1,
      request = \<lparr>req_data = (), jingo_context = None\<rparr>, invoked = []\<rparr>"

text \<open>One processor, \<open>site\<close>, that returns \<open>{"x": 2, "y": 3}\<close>.\<close>

definition example_processors :: "unit processor list" where
  "example_processors = [(''site'', \<lambda>req. Inr [''x'' \<mapsto> PyInt 2, ''y'' \<mapsto> PyInt 3])]"



section \<open>\<open>load_helpers\<close>\<close>

text \<open>A module, as far as the loader looks at it: its \<open>__path__\<close>, if it has one.\<close>

record pymodule =
  mod_path :: "string list option"

text \<open>
  What the loader is given: \<open>settings.INSTALLED_APPS\<close>, \<open>import_module\<close> and
  \<open>imp.find_module\<close>, each of the two returning or raising.
\<close>

record loader_env =
  installed_apps :: "string list"
  import_module :: "string \<Rightarrow> exn + pymodule"
  find_module :: "string \<Rightarrow> string list \<Rightarrow> exn + unit"

text \<open>What the loader does, in program order.\<close>

datatype loader_event = SetLoaded | Import string | FindModule string "string list"

record loader =
  helpers_loaded :: bool
  trace :: "loader_event list"

text \<open>Line 24: the state of the module when it has just been loaded.\<close>

definition init_loader :: loader where
  "init_loader = \<lparr>helpers_loaded = False, trace = []\<rparr>"

text \<open>Line 144: \<open>import_module(app).__path__\<close>.\<close>

definition app_path :: "loader_env \<Rightarrow> string \<Rightarrow> exn + string list" where
  "app_path env app =
     (case import_module env app of
        Inl e \<Rightarrow> Inl e
      | Inr m \<Rightarrow> (case mod_path m of None \<Rightarrow> Inl AttributeError | Some p \<Rightarrow> Inr p))"

text \<open>
  Lines 142 to 153: the loop over the applications.  The result is the exception that
  left the loop, if one did, and the state then.
\<close>

fun load_apps :: "loader_env \<Rightarrow> string list \<Rightarrow> loader \<Rightarrow> exn option \<times> loader" where
  "load_apps env [] l = (None, l)"
| "load_apps env (app # apps) l =
     (let l1 = l\<lparr>trace := trace l @ [Import app]\<rparr>
      in case app_path env app of
           Inl e \<Rightarrow> if e = AttributeError then load_apps env apps l1 else (Some e, l1)
         | Inr p \<Rightarrow>
             (let l2 = l1\<lparr>trace := trace l1 @ [FindModule ''helpers'' p]\<rparr>
              in case find_module env ''helpers'' p of
                   Inl e \<Rightarrow> if e = ImportError then load_apps env apps l2 else (Some e, l2)
                 | Inr u \<Rightarrow>
                     (let l3 = l2\<lparr>trace := trace l2 @ [Import (app @ ''.helpers'')]\<rparr>
                      in case import_module env (app @ ''.helpers'') of
                           Inl e \<Rightarrow> (Some e, l3)
                         | Inr m \<Rightarrow> load_apps env apps l3)))"

text \<open>
  Lines 131 to 153.  The statement \<open>from jingo import helpers\<close> of line 140 is the
  import of the module \<open>jingo.helpers\<close>; like every import, it returns or raises.
\<close>

definition load_helpers :: "loader_env \<Rightarrow> loader \<Rightarrow> exn option \<times> loader" where
  "load_helpers env l =
     (if helpers_loaded l then (None, l)
      else
        (let l1 = l\<lparr>helpers_loaded := True, trace := trace l @ [SetLoaded]\<rparr>;
             l2 = l1\<lparr>trace := trace l1 @ [Import ''jingo.helpers'']\<rparr>
         in case import_module env ''jingo.helpers'' of
              Inl e \<Rightarrow> (Some e, l2)
            | Inr m \<Rightarrow> load_apps env (installed_apps env) l2))"

text \<open>
  An environment to run the loader in: \<open>blog\<close> is a package without a helpers module,
  \<open>plain\<close> a module without \<open>__path__\<close>, \<open>shop\<close> a package with a helpers module,
  whose import returns or raises as \<open>r\<close> says.
\<close>

definition example_env :: "exn + pymodule \<Rightarrow> loader_env" where
  "example_env r =
     \<lparr>installed_apps = [''blog'', ''plain'', ''shop''],
      import_module = (\<lambda>name.
        if name = ''jingo.helpers'' then Inr \<lparr>mod_path = None\<rparr>
        else if name = ''shop.helpers'' then r
        else if name = ''blog'' then Inr \<lparr>mod_path = Some [''/srv/blog'']\<rparr>
        else if name = ''shop'' then Inr \<lparr>mod_path = Some [''/srv/shop'']\<rparr>
        else if name = ''plain'' then Inr \<lparr>mod_path = None\<rparr>
        else Inl ImportError),
      find_module = (\<lambda>name path. if path = [''/srv/shop''] then Inr () else Inl ImportError)\<rparr>"

section \<open>\<open>render_to_string\<close>\<close>

text \<open>
  Jinja2 itself: looking a template up by name and rendering a template against a
  mapping, each returning or raising.
\<close>

record 't jinja =
  jinja_get_template :: "string \<Rightarrow> exn + 't"
  jinja_render :: "'t \<Rightarrow> dict \<Rightarrow> exn + string"

text \<open>Lines 51 to 54: \<open>Environment.get_template\<close>.\<close>

definition Environment_get_template ::
  "loader_env \<Rightarrow> 't jinja \<Rightarrow> string \<Rightarrow> loader \<Rightarrow> (exn + 't) \<times> loader" where
  "Environment_get_template env j name l =
     (case load_helpers env l of
        (Some e, l') \<Rightarrow> (Inl e, l')
      | (None, l') \<Rightarrow> (jinja_get_template j name, l'))"

text \<open>
  The argument of \<open>Template.render\<close> as the caller holds it: a \<open>Context\<close> whose layers
  are references, or a reference to a mapping.
\<close>

datatype context_ref = ContextRef "addr list option" | MappingRef addr

definition deref :: "'a store_scheme \<Rightarrow> context_ref \<Rightarrow> django_context" where
  "deref s c =
     (case c of
        ContextRef dicts \<Rightarrow> Context (map_option (map (cells s)) dicts)
      | MappingRef a \<Rightarrow> Mapping (cells s a))"

text \<open>
  Lines 32 to 46: \<open>context_dict\<close> is a new dictionary, filled from the argument and
  handed to Jinja2.  The signal sent when \<open>TEMPLATE_DEBUG\<close> is set is left out: it
  does not touch \<open>context_dict\<close>.
\<close>

definition Template_render ::
  "'t jinja \<Rightarrow> 't \<Rightarrow> context_ref \<Rightarrow> 'a store_scheme \<Rightarrow> (exn + string) \<times> 'a store_scheme" where
  "Template_render j self context s =
     (let (context_dict, s1) = alloc (flatten_context (deref s context)) s
      in (jinja_render j self (cells s1 context_dict), s1))"

text \<open>
  The \<open>template\<close> argument of \<open>render_to_string\<close>: a template of the adapter's class,
  or the path of one.
\<close>

datatype 't template_arg = TemplateObject 't | TemplatePath string

text \<open>Lines 110 to 128.\<close>

definition render_to_string ::
  "loader_env \<Rightarrow> 't jinja \<Rightarrow> 'r processor list \<Rightarrow> 't template_arg \<Rightarrow> addr option \<Rightarrow>
   loader \<times> 'r world \<Rightarrow> (exn + string) \<times> loader \<times> 'r world" where
  "render_to_string env j processors template context = (\<lambda>(l, w).
     case (case template of
             TemplateObject t \<Rightarrow> (Inr t, l)
           | TemplatePath name \<Rightarrow> Environment_get_template env j name l) of
       (Inl e, l') \<Rightarrow> (Inl e, l', w)
     | (Inr t, l') \<Rightarrow>
         (case get_context processors context w of
            (Inl e, w1) \<Rightarrow> (Inl e, l', w1)
          | (Inr ctx, w1) \<Rightarrow>
              (let (r, w2) = Template_render j t (MappingRef ctx) w1
               in (r, l', w2))))"

section \<open>The MD5 model on known digests\<close>

text \<open>
  Two digests of the test suite of RFC 1321, and the digests of the two argument strings
  used below, as \<open>hashlib\<close> gives them.
\<close>

lemma md5_hexdigest_empty: "md5_hexdigest [] = ''d41d8cd98f00b204e9800998ecf8427e''"
  by code_simp

lemma md5_hexdigest_abc: "md5_hexdigest ''abc'' = ''900150983cd24fb0d6963f7d28e17f72''"
  by code_simp

lemma md5_hexdigest_kw_ab: "md5_hexdigest ''_a_1_b_2'' = ''2d6193499e7d9dccb1564daef70d57f8''"
  by code_simp

lemma md5_hexdigest_kw_ba: "md5_hexdigest ''_b_2_a_1'' = ''e2e6bbcfd1ee43dff058cbdfd6bd2d15''"
  by code_simp

section \<open>The cached inclusion tag\<close>

lemma arg_signature_parts:
  "arg_signature args kw =
     join ''_'' (map py_str args) @ ''_'' @ join ''_'' (map (\<lambda>(k, v). k @ ''_'' @ py_str v) kw)"
  by (simp add: arg_signature_def)

lemma tag_hit:
  assumes "cache s (cache_key key kwargs args kw) = Some t"
  shows "cached_inclusion_tag template key kwargs f render args kw s =
           (Inr (Markup t), s\<lparr>effects := effects s @ [CacheGet (cache_key key kwargs args kw)]\<rparr>)"
  using assms by (simp add: cached_inclusion_tag_def Let_def)

lemma tag_miss:
  assumes "cache s (cache_key key kwargs args kw) = None"
    and "f args kw = Inr c" and "render template c = Inr t"
  shows "cached_inclusion_tag template key kwargs f render args kw s =
           (Inr (Markup t),
            s\<lparr>cache := (cache s)(cache_key key kwargs args kw \<mapsto> t),
              effects := effects s @ [CacheGet (cache_key key kwargs args kw), CallTag args kw,
                 RenderTemplate template c, CacheSet (cache_key key kwargs args kw) t]\<rparr>)"
  using assms by (simp add: cached_inclusion_tag_def Let_def)

lemma tag_effects:
  "\<exists>rest. effects (snd (cached_inclusion_tag template key kwargs f render args kw s)) =
           effects s @ CacheGet (cache_key key kwargs args kw) # rest \<and>
         (\<forall>k t. CacheSet k t \<in> set rest \<longrightarrow> k = cache_key key kwargs args kw) \<and>
         (\<forall>k. CacheGet k \<notin> set rest)"
  by (auto simp add: cached_inclusion_tag_def Let_def split: option.splits sum.splits)

text \<open>
  C1.  In every call of the wrapper the cache key is \<open>key\<close>, an underscore and the MD5
  hex digest of the argument string when the \<open>kwargs\<close> flag is set and the call has a
  positional or a keyword argument, and \<open>key\<close> itself otherwise.  The argument string is
  the string forms of the positional arguments joined by underscores, one underscore, and
  the keyword pairs, each as name, underscore, value, joined by underscores.  That key is
  the one the wrapper reads the cache under, and the only one it writes.
\<close>

theorem cache_key_computed:
  "cache_key key kwargs args kw =
     (if kwargs \<and> (args \<noteq> [] \<or> kw \<noteq> [])
      then key @ ''_'' @
           md5_hexdigest (join ''_'' (map py_str args) @ ''_'' @
                          join ''_'' (map (\<lambda>(k, v). k @ ''_'' @ py_str v) kw))
      else key) \<and>
   (\<exists>rest. effects (snd (cached_inclusion_tag template key kwargs f render args kw s)) =
           effects s @ CacheGet (cache_key key kwargs args kw) # rest \<and>
         (\<forall>k t. CacheSet k t \<in> set rest \<longrightarrow> k = cache_key key kwargs args kw) \<and>
         (\<forall>k. CacheGet k \<notin> set rest))"
proof
  show "cache_key key kwargs args kw =
     (if kwargs \<and> (args \<noteq> [] \<or> kw \<noteq> [])
      then key @ ''_'' @
           md5_hexdigest (join ''_'' (map py_str args) @ ''_'' @
                          join ''_'' (map (\<lambda>(k, v). k @ ''_'' @ py_str v) kw))
      else key)"
    by (simp only: cache_key_def arg_signature_parts)
next
  show "\<exists>rest. effects (snd (cached_inclusion_tag template key kwargs f render args kw s)) =
           effects s @ CacheGet (cache_key key kwargs args kw) # rest \<and>
         (\<forall>k t. CacheSet k t \<in> set rest \<longrightarrow> k = cache_key key kwargs args kw) \<and>
         (\<forall>k. CacheGet k \<notin> set rest)"
    by (rule tag_effects)
qed

text \<open>
  The call \<open>f(1, 2, name="a")\<close> under the key \<open>k\<close>, on an empty cache; the same wrapper
  called with no argument; and a wrapper made with \<open>kwargs=False\<close>.
\<close>

theorem cache_key_computed_witness:
  "cache_key ''k'' True [PyInt 1, PyInt 2] [(''name'', PyStr ''a'')] =
     ''k_'' @ md5_hexdigest ''1_2_name_a'' \<and>
   cache_key ''k'' True [] [] = ''k'' \<and>
   cache_key ''k'' False [PyInt 1, PyInt 2] [(''name'', PyStr ''a'')] = ''k'' \<and>
   effects (snd (cached_inclusion_tag ''t.html'' ''k'' True (\<lambda>a k. Inr a) (\<lambda>t c. Inr ''text'')
      [PyInt 1, PyInt 2] [(''name'', PyStr ''a'')] \<lparr>cache = Map.empty, effects = []\<rparr>)) =
     [CacheGet (''k_'' @ md5_hexdigest ''1_2_name_a''),
      CallTag [PyInt 1, PyInt 2] [(''name'', PyStr ''a'')],
      RenderTemplate ''t.html'' [PyInt 1, PyInt 2],
      CacheSet (''k_'' @ md5_hexdigest ''1_2_name_a'') ''text'']"
  using cache_key_computed [of "''k''" True "[PyInt 1, PyInt 2]" "[(''name'', PyStr ''a'')]"
      "''t.html''" "\<lambda>a k. Inr a" "\<lambda>t c. Inr ''text''" "\<lparr>cache = Map.empty, effects = []\<rparr>"]
  by (simp add: str_int_def cached_inclusion_tag_def cache_key_def arg_signature_def Let_def)

lemma tag_returns:
  assumes "fst (cached_inclusion_tag template key kwargs f render args kw s) = Inr (Markup t)"
  shows "cache (snd (cached_inclusion_tag template key kwargs f render args kw s))
           (cache_key key kwargs args kw) = Some t"
  using assms
  by (auto simp add: cached_inclusion_tag_def Let_def split: option.splits sum.splits)

lemma tag_new_renders:
  "length (filter is_render
     (drop (length (effects s))
        (effects (snd (cached_inclusion_tag template key kwargs f render args kw s))))) \<le> 1"
  by (auto simp add: cached_inclusion_tag_def Let_def split: option.splits sum.splits)

text \<open>
  C5.  When the cache holds a text under the cache key, the wrapper returns it as safe
  markup, and neither calls the decorated function nor renders the template.  When it
  holds none, and the function returns a context and the template renders, the wrapper
  calls the function, renders the template against that context, stores the text under
  the cache key and returns it as safe markup.  A call that returned is followed, on the
  same arguments, by a call that only reads the cache and returns the same markup: the
  two calls render the template at most once.
\<close>

theorem cached_tag_hit_and_miss:
  "(cache s (cache_key key kwargs args kw) = Some t \<longrightarrow>
      cached_inclusion_tag template key kwargs f render args kw s =
        (Inr (Markup t), s\<lparr>effects := effects s @ [CacheGet (cache_key key kwargs args kw)]\<rparr>)) \<and>
   (cache s (cache_key key kwargs args kw) = None \<and> f args kw = Inr c \<and>
    render template c = Inr t \<longrightarrow>
      cached_inclusion_tag template key kwargs f render args kw s =
        (Inr (Markup t),
         s\<lparr>cache := (cache s)(cache_key key kwargs args kw \<mapsto> t),
           effects := effects s @
             [CacheGet (cache_key key kwargs args kw), CallTag args kw,
              RenderTemplate template c, CacheSet (cache_key key kwargs args kw) t]\<rparr>)) \<and>
   (\<forall>m s1. cached_inclusion_tag template key kwargs f render args kw s = (Inr m, s1) \<longrightarrow>
      cached_inclusion_tag template key kwargs f render args kw s1 =
        (Inr m, s1\<lparr>effects := effects s1 @ [CacheGet (cache_key key kwargs args kw)]\<rparr>) \<and>
      length (filter is_render (drop (length (effects s))
        (effects (snd (cached_inclusion_tag template key kwargs f render args kw s1))))) \<le> 1)"
proof (intro conjI impI allI)
  assume "cache s (cache_key key kwargs args kw) = Some t"
  then show "cached_inclusion_tag template key kwargs f render args kw s =
        (Inr (Markup t), s\<lparr>effects := effects s @ [CacheGet (cache_key key kwargs args kw)]\<rparr>)"
    by (rule tag_hit)
next
  assume "cache s (cache_key key kwargs args kw) = None \<and> f args kw = Inr c \<and>
    render template c = Inr t"
  then show "cached_inclusion_tag template key kwargs f render args kw s =
        (Inr (Markup t),
         s\<lparr>cache := (cache s)(cache_key key kwargs args kw \<mapsto> t),
           effects := effects s @
             [CacheGet (cache_key key kwargs args kw), CallTag args kw,
              RenderTemplate template c, CacheSet (cache_key key kwargs args kw) t]\<rparr>)"
    by (simp add: tag_miss)
next
  fix m s1
  assume r: "cached_inclusion_tag template key kwargs f render args kw s = (Inr m, s1)"
  obtain t' where m: "m = Markup t'" by (cases m)
  from r m have "cache s1 (cache_key key kwargs args kw) = Some t'"
    using tag_returns [of template key kwargs f render args kw s t'] by simp
  then show again: "cached_inclusion_tag template key kwargs f render args kw s1 =
        (Inr m, s1\<lparr>effects := effects s1 @ [CacheGet (cache_key key kwargs args kw)]\<rparr>)"
    unfolding m by (rule tag_hit)
  obtain rest where rest: "effects s1 = effects s @ rest"
    using tag_effects [of template key kwargs f render args kw s] r by auto
  have "length (filter is_render (drop (length (effects s)) (effects s1))) \<le> 1"
    using tag_new_renders [of s template key kwargs f render args kw] r by simp
  with rest have "length (filter is_render rest) \<le> 1" by simp
  with rest again
  show "length (filter is_render (drop (length (effects s))
        (effects (snd (cached_inclusion_tag template key kwargs f render args kw s1))))) \<le> 1"
    by simp
qed

text \<open>A wrapper called twice with no argument, on a cache that is empty at first.\<close>

theorem cached_tag_hit_and_miss_witness:
  "cached_inclusion_tag ''t.html'' ''k'' True (\<lambda>a k. Inr a) (\<lambda>t c. Inr (join '','' (map py_str c)))
      [] [] \<lparr>cache = Map.empty, effects = []\<rparr> =
     (Inr (Markup []),
      \<lparr>cache = [''k'' \<mapsto> []],
       effects = [CacheGet ''k'', CallTag [] [], RenderTemplate ''t.html'' [], CacheSet ''k'' []]\<rparr>) \<and>
   cached_inclusion_tag ''t.html'' ''k'' True (\<lambda>a k. Inr a) (\<lambda>t c. Inr (join '','' (map py_str c)))
      [] [] \<lparr>cache = [''k'' \<mapsto> []],
       effects = [CacheGet ''k'', CallTag [] [], RenderTemplate ''t.html'' [], CacheSet ''k'' []]\<rparr> =
     (Inr (Markup []),
      \<lparr>cache = [''k'' \<mapsto> []],
       effects = [CacheGet ''k'', CallTag [] [], RenderTemplate ''t.html'' [], CacheSet ''k'' [],
                  CacheGet ''k'']\<rparr>)"
  using cached_tag_hit_and_miss [of "\<lparr>cache = Map.empty, effects = []\<rparr>" "''k''" True "[]" "[]"
     "[]" "''t.html''" "\<lambda>a k. Inr a" "\<lambda>t c. Inr (join '','' (map py_str c))" "[]"]
  by (simp add: cache_key_def)

text \<open>
  C8.  The keyword pairs enter the argument string in the order in which the keyword
  mapping yields them: nothing sorts them.  The calls \<open>f(a=1, b=2)\<close> and
  \<open>f(b=2, a=1)\<close>, whose mappings yield the same two pairs in the two orders, have
  different argument strings and different cache keys, whatever \<open>key\<close> is, and the
  wrapper reads the cache under a different key in each.
\<close>

theorem keyword_order_changes_cache_key:
  "set [(''a'', PyInt 1), (''b'', PyInt 2)] = set [(''b'', PyInt 2), (''a'', PyInt 1)] \<and>
   arg_signature [] [(''a'', PyInt 1), (''b'', PyInt 2)] = ''_a_1_b_2'' \<and>
   arg_signature [] [(''b'', PyInt 2), (''a'', PyInt 1)] = ''_b_2_a_1'' \<and>
   (\<forall>key. cache_key key True [] [(''a'', PyInt 1), (''b'', PyInt 2)] \<noteq>
          cache_key key True [] [(''b'', PyInt 2), (''a'', PyInt 1)]) \<and>
   (\<forall>template key f render s.
      hd (effects (snd (cached_inclusion_tag template key True f render []
            [(''a'', PyInt 1), (''b'', PyInt 2)] (s\<lparr>effects := []\<rparr>)))) \<noteq>
      hd (effects (snd (cached_inclusion_tag template key True f render []
            [(''b'', PyInt 2), (''a'', PyInt 1)] (s\<lparr>effects := []\<rparr>)))))"
proof -
  have ab: "arg_signature [] [(''a'', PyInt 1), (''b'', PyInt 2)] = ''_a_1_b_2''"
    by (simp add: arg_signature_def str_int_def)
  have ba: "arg_signature [] [(''b'', PyInt 2), (''a'', PyInt 1)] = ''_b_2_a_1''"
    by (simp add: arg_signature_def str_int_def)
  have keys: "cache_key key True [] [(''a'', PyInt 1), (''b'', PyInt 2)] \<noteq>
              cache_key key True [] [(''b'', PyInt 2), (''a'', PyInt 1)]" for key
    by (simp add: cache_key_def ab ba md5_hexdigest_kw_ab md5_hexdigest_kw_ba)
  have heads: "hd (effects (snd (cached_inclusion_tag template key True f render [] kw
                 (s\<lparr>effects := []\<rparr>)))) = CacheGet (cache_key key True [] kw)"
    for template key and f :: "pyval list \<Rightarrow> (string \<times> pyval) list \<Rightarrow> exn + 'c"
      and render kw and s :: "'c tag_state"
    using tag_effects [of template key True f render "[]" kw "s\<lparr>effects := []\<rparr>"]
    by auto
  show ?thesis
    using keys by (auto simp add: ab ba heads)
qed

text \<open>The two calls under the key \<open>k\<close>.\<close>

theorem keyword_order_changes_cache_key_witness:
  "cache_key ''k'' True [] [(''a'', PyInt 1), (''b'', PyInt 2)] \<noteq>
   cache_key ''k'' True [] [(''b'', PyInt 2), (''a'', PyInt 1)]"
  using keyword_order_changes_cache_key by blast

text \<open>
  C9.  The cache key does not tell argument lists apart.  The positional arguments
  \<open>(1, 2)\<close> and the one string \<open>"1_2"\<close> have the same argument string, so the same
  cache key under every \<open>key\<close>; and once a call with the first has stored its text, a
  call with the second returns that text, without calling the decorated function.
\<close>

theorem cache_key_not_injective:
  "[PyInt 1, PyInt 2] \<noteq> [PyStr ''1_2''] \<and>
   arg_signature [PyInt 1, PyInt 2] [] = arg_signature [PyStr ''1_2''] [] \<and>
   (\<forall>key kwargs. cache_key key kwargs [PyInt 1, PyInt 2] [] =
                  cache_key key kwargs [PyStr ''1_2''] []) \<and>
   (\<forall>template key f render s c t.
      cache s (cache_key key True [PyInt 1, PyInt 2] []) = None \<and>
      f [PyInt 1, PyInt 2] [] = Inr c \<and> render template c = Inr t \<longrightarrow>
      (let s1 = snd (cached_inclusion_tag template key True f render [PyInt 1, PyInt 2] [] s)
       in cached_inclusion_tag template key True f render [PyStr ''1_2''] [] s1 =
            (Inr (Markup t),
             s1\<lparr>effects := effects s1 @ [CacheGet (cache_key key True [PyStr ''1_2''] [])]\<rparr>)))"
proof -
  have sig: "arg_signature [PyInt 1, PyInt 2] [] = arg_signature [PyStr ''1_2''] []"
    by (simp add: arg_signature_def str_int_def)
  have keys: "cache_key key kwargs [PyInt 1, PyInt 2] [] = cache_key key kwargs [PyStr ''1_2''] []"
    for key kwargs
    by (simp add: cache_key_def sig)
  have second: "cached_inclusion_tag template key True f render [PyStr ''1_2''] []
        (snd (cached_inclusion_tag template key True f render [PyInt 1, PyInt 2] [] s)) =
      (Inr (Markup t),
       (snd (cached_inclusion_tag template key True f render [PyInt 1, PyInt 2] [] s))
         \<lparr>effects := effects (snd (cached_inclusion_tag template key True f render
               [PyInt 1, PyInt 2] [] s)) @ [CacheGet (cache_key key True [PyStr ''1_2''] [])]\<rparr>)"
    if "cache s (cache_key key True [PyInt 1, PyInt 2] []) = None"
      and "f [PyInt 1, PyInt 2] [] = Inr c" and "render template c = Inr t"
    for template key and f :: "pyval list \<Rightarrow> (string \<times> pyval) list \<Rightarrow> exn + 'c"
      and render and s :: "'c tag_state" and c t
  proof (rule tag_hit)
    show "cache (snd (cached_inclusion_tag template key True f render [PyInt 1, PyInt 2] [] s))
            (cache_key key True [PyStr ''1_2''] []) = Some t"
      using that by (simp add: tag_miss keys)
  qed
  show ?thesis
    unfolding Let_def
  proof (intro conjI allI impI)
    show "[PyInt 1, PyInt 2] \<noteq> [PyStr ''1_2'']" by simp
    show "arg_signature [PyInt 1, PyInt 2] [] = arg_signature [PyStr ''1_2''] []" by (rule sig)
    show "cache_key key kwargs [PyInt 1, PyInt 2] [] = cache_key key kwargs [PyStr ''1_2''] []"
      for key kwargs by (rule keys)
  next
    fix template key :: string and f :: "pyval list \<Rightarrow> (string \<times> pyval) list \<Rightarrow> exn + 'c"
      and render :: "string \<Rightarrow> 'c \<Rightarrow> exn + string" and s :: "'c tag_state" and c t
    assume "cache s (cache_key key True [PyInt 1, PyInt 2] []) = None \<and>
      f [PyInt 1, PyInt 2] [] = Inr c \<and> render template c = Inr t"
    then show "cached_inclusion_tag template key True f render [PyStr ''1_2''] []
        (snd (cached_inclusion_tag template key True f render [PyInt 1, PyInt 2] [] s)) =
      (Inr (Markup t),
       (snd (cached_inclusion_tag template key True f render [PyInt 1, PyInt 2] [] s))
         \<lparr>effects := effects (snd (cached_inclusion_tag template key True f render
               [PyInt 1, PyInt 2] [] s)) @ [CacheGet (cache_key key True [PyStr ''1_2''] [])]\<rparr>)"
      using second [of s key f c render template t] by blast
  qed
qed

text \<open>
  A tag that renders its arguments joined by commas: after the call with \<open>(1, 2)\<close>,
  the call with \<open>"1_2"\<close> returns \<open>1,2\<close>, the text of the other arguments.
\<close>

theorem cache_key_not_injective_witness:
  "fst (cached_inclusion_tag ''t.html'' ''k'' True (\<lambda>a k. Inr a)
          (\<lambda>t c. Inr (join '','' (map py_str c))) [PyStr ''1_2''] []
          (snd (cached_inclusion_tag ''t.html'' ''k'' True (\<lambda>a k. Inr a)
                  (\<lambda>t c. Inr (join '','' (map py_str c))) [PyInt 1, PyInt 2] []
                  \<lparr>cache = Map.empty, effects = []\<rparr>))) = Inr (Markup ''1,2'') \<and>
   fst (cached_inclusion_tag ''t.html'' ''k'' True (\<lambda>a k. Inr a)
          (\<lambda>t c. Inr (join '','' (map py_str c))) [PyStr ''1_2''] []
          \<lparr>cache = Map.empty, effects = []\<rparr>) = Inr (Markup ''1_2'')"
proof -
  have "cache_key ''k'' True [PyInt 1, PyInt 2] [] = cache_key ''k'' True [PyStr ''1_2''] []"
    using cache_key_not_injective by blast
  then show ?thesis
    by (simp add: cached_inclusion_tag_def Let_def str_int_def)
qed

section \<open>Flattening\<close>

lemma update_all_snoc: "update_all acc (ds @ [d]) = update (update_all acc ds) d"
  by (induction ds arbitrary: acc) simp_all

lemma update_all_none: "\<forall>d \<in> set ds. d k = None \<Longrightarrow> update_all acc ds k = acc k"
  by (induction ds arbitrary: acc) (simp_all add: update_def map_add_def)

lemma update_all_last_wins:
  assumes "i < length ds" and "(ds ! i) k = Some v"
    and "\<forall>j. i < j \<and> j < length ds \<longrightarrow> (ds ! j) k = None"
  shows "update_all acc ds k = Some v"
  using assms
proof (induction ds rule: rev_induct)
  case Nil
  then show ?case by simp
next
  case (snoc d ds)
  show ?case
  proof (cases "i = length ds")
    case True
    with snoc.prems(2) have "d k = Some v" by simp
    then show ?thesis by (simp add: update_all_snoc update_def)
  next
    case False
    with snoc.prems(1) have i: "i < length ds" by simp
    have d: "d k = None"
      using snoc.prems(3) [rule_format, of "length ds"] i by simp
    have "(ds ! i) k = Some v" using snoc.prems(2) i by (simp add: nth_append)
    moreover have "\<forall>j. i < j \<and> j < length ds \<longrightarrow> (ds ! j) k = None"
    proof (intro allI impI)
      fix j assume j: "i < j \<and> j < length ds"
      then show "(ds ! j) k = None"
        using snoc.prems(3) [rule_format, of j] by (simp add: nth_append)
    qed
    ultimately have "update_all acc ds k = Some v" using snoc.IH i by blast
    with d show ?thesis by (simp add: update_all_snoc update_def map_add_def)
  qed
qed

text \<open>
  C7.  For a \<open>Context\<close> the flattened mapping is built by taking the layers in the order
  of \<open>dicts\<close> and overwriting: a key has the value of the last layer that holds it, and
  no value when no layer holds it; a layer added at the end overwrites what was
  flattened before.  A \<open>Context\<close> without \<open>dicts\<close> flattens to the empty mapping, and
  any other mapping is copied as it is.  The layers \<open>[{"a": 1}, {"a": 2, "b": 3}]\<close>
  flatten to \<open>{"a": 2, "b": 3}\<close>.
\<close>

theorem flatten_later_layer_wins:
  "(\<forall>i k v. i < length ds \<and> (ds ! i) k = Some v \<and>
       (\<forall>j. i < j \<and> j < length ds \<longrightarrow> (ds ! j) k = None) \<longrightarrow>
       flatten_context (Context (Some ds)) k = Some v) \<and>
   (\<forall>k. (\<forall>d \<in> set ds. d k = None) \<longrightarrow> flatten_context (Context (Some ds)) k = None) \<and>
   flatten_context (Context (Some (ds @ [d]))) = flatten_context (Context (Some ds)) ++ d \<and>
   flatten_context (Context None) = Map.empty \<and>
   flatten_context (Mapping m) = m \<and>
   flatten_context (Context (Some [[''a'' \<mapsto> PyInt 1], [''a'' \<mapsto> PyInt 2, ''b'' \<mapsto> PyInt 3]])) =
     [''a'' \<mapsto> PyInt 2, ''b'' \<mapsto> PyInt 3]"
proof (intro conjI allI impI)
  fix i k v
  assume "i < length ds \<and> (ds ! i) k = Some v \<and>
       (\<forall>j. i < j \<and> j < length ds \<longrightarrow> (ds ! j) k = None)"
  then show "flatten_context (Context (Some ds)) k = Some v"
    using update_all_last_wins [of i ds k v Map.empty] by simp
next
  fix k assume "\<forall>d \<in> set ds. d k = None"
  then show "flatten_context (Context (Some ds)) k = None"
    using update_all_none [of ds k Map.empty] by simp
next
  show "flatten_context (Context (Some (ds @ [d]))) = flatten_context (Context (Some ds)) ++ d"
    by (simp add: update_all_snoc update_def)
  show "flatten_context (Context None) = Map.empty" by simp
  show "flatten_context (Mapping m) = m" by (simp add: update_def)
  show "flatten_context (Context (Some [[''a'' \<mapsto> PyInt 1], [''a'' \<mapsto> PyInt 2, ''b'' \<mapsto> PyInt 3]])) =
     [''a'' \<mapsto> PyInt 2, ''b'' \<mapsto> PyInt 3]"
    by (simp add: update_def)
qed

text \<open>The same layers: \<open>a\<close> is read from the second layer, and \<open>c\<close> is in none.\<close>

theorem flatten_later_layer_wins_witness:
  "flatten_context (Context (Some [[''a'' \<mapsto> PyInt 1], [''a'' \<mapsto> PyInt 2, ''b'' \<mapsto> PyInt 3]])) ''a''
     = Some (PyInt 2) \<and>
   flatten_context (Context (Some [[''a'' \<mapsto> PyInt 1], [''a'' \<mapsto> PyInt 2, ''b'' \<mapsto> PyInt 3]])) ''c''
     = None"
proof -
  let ?ds = "[[''a'' \<mapsto> PyInt 1], [''a'' \<mapsto> PyInt 2, ''b'' \<mapsto> PyInt 3]]"
  have h: "(1::nat) < length ?ds \<and> (?ds ! 1) ''a'' = Some (PyInt 2) \<and>
        (\<forall>j. 1 < j \<and> j < length ?ds \<longrightarrow> (?ds ! j) ''a'' = None)"
    by simp
  have n: "\<forall>d \<in> set ?ds. d ''c'' = None" by simp
  from flatten_later_layer_wins [of ?ds] h n show ?thesis by blast
qed

section \<open>The helper loader\<close>

lemma load_helpers_again: "helpers_loaded l \<Longrightarrow> load_helpers env l = (None, l)"
  by (simp add: load_helpers_def)

lemma load_apps_trace:
  "helpers_loaded (snd (load_apps env apps l)) = helpers_loaded l \<and>
   (\<exists>rest. trace (snd (load_apps env apps l)) = trace l @ rest \<and> SetLoaded \<notin> set rest)"
proof (induction apps arbitrary: l)
  case Nil
  show ?case by simp
next
  case (Cons app apps)
  have step: "helpers_loaded (snd (load_apps env apps l')) = helpers_loaded l \<and>
     (\<exists>rest. trace (snd (load_apps env apps l')) = trace l @ rest \<and> SetLoaded \<notin> set rest)"
    if "helpers_loaded l' = helpers_loaded l" and "trace l' = trace l @ es" and "SetLoaded \<notin> set es"
    for l' es
  proof -
    from Cons.IH [of l'] obtain rest where
      "helpers_loaded (snd (load_apps env apps l')) = helpers_loaded l'"
      "trace (snd (load_apps env apps l')) = trace l' @ rest" "SetLoaded \<notin> set rest"
      by blast
    with that show ?thesis by simp
  qed
  show ?case
    by (auto simp add: Let_def step split: sum.splits)
qed

lemma load_helpers_first:
  assumes "\<not> helpers_loaded l"
  shows "helpers_loaded (snd (load_helpers env l)) \<and>
    (\<exists>rest. trace (snd (load_helpers env l)) =
        trace l @ SetLoaded # Import ''jingo.helpers'' # rest \<and> SetLoaded \<notin> set rest)"
proof (cases "import_module env ''jingo.helpers''")
  case (Inl e)
  with assms show ?thesis by (simp add: load_helpers_def Let_def)
next
  case (Inr m)
  let ?l2 = "l\<lparr>helpers_loaded := True, trace := trace l @ [SetLoaded, Import ''jingo.helpers'']\<rparr>"
  from load_apps_trace [of env "installed_apps env" ?l2] obtain rest where
    "helpers_loaded (snd (load_apps env (installed_apps env) ?l2))"
    "trace (snd (load_apps env (installed_apps env) ?l2)) = trace ?l2 @ rest" "SetLoaded \<notin> set rest"
    by auto
  with assms Inr show ?thesis by (simp add: load_helpers_def Let_def)
qed

lemma load_helpers_sets_flag: "helpers_loaded (snd (load_helpers env l))"
  by (cases "helpers_loaded l") (simp_all add: load_helpers_again load_helpers_first)

lemma load_helpers_repeated:
  "0 < N \<Longrightarrow> ((\<lambda>l. snd (load_helpers env l)) ^^ N) l = snd (load_helpers env l)"
proof (induction N)
  case 0
  then show ?case by simp
next
  case (Suc N)
  show ?case
  proof (cases "N = 0")
    case True
    then show ?thesis by simp
  next
    case False
    with Suc.IH have "((\<lambda>l. snd (load_helpers env l)) ^^ N) l = snd (load_helpers env l)" by simp
    then show ?thesis
      by (simp add: load_helpers_again load_helpers_sets_flag)
  qed
qed

text \<open>
  C3.  The loaded flag is false when the module has just been loaded.  The first
  invocation of \<open>load_helpers\<close> sets it before it imports anything: setting the flag is
  the first thing it does, the import of \<open>jingo.helpers\<close> the second, and the flag is not
  set again after that.  No invocation leaves the flag false, and an invocation that
  finds it set returns at once, importing nothing and changing nothing.  So any number
  \<open>N > 0\<close> of invocations leaves exactly what the first one left: the imports are done
  once.
\<close>

theorem load_helpers_runs_once:
  "(0 < N \<longrightarrow>
     ((\<lambda>l. snd (load_helpers env l)) ^^ N) init_loader = snd (load_helpers env init_loader)) \<and>
     \<not> helpers_loaded init_loader \<and>
     helpers_loaded (snd (load_helpers env init_loader)) \<and>
     (\<exists>rest. trace (snd (load_helpers env init_loader)) =
        SetLoaded # Import ''jingo.helpers'' # rest \<and> SetLoaded \<notin> set rest) \<and>
     (\<forall>l. helpers_loaded l \<longrightarrow> load_helpers env l = (None, l)) \<and>
     (\<forall>l. helpers_loaded (snd (load_helpers env l)))"
proof (intro impI conjI allI)
  assume "0 < N"
  then show "((\<lambda>l. snd (load_helpers env l)) ^^ N) init_loader = snd (load_helpers env init_loader)"
    by (rule load_helpers_repeated)
next
  show "\<not> helpers_loaded init_loader" by (simp add: init_loader_def)
  then show "helpers_loaded (snd (load_helpers env init_loader))"
    by (simp add: load_helpers_first)
  show "\<exists>rest. trace (snd (load_helpers env init_loader)) =
        SetLoaded # Import ''jingo.helpers'' # rest \<and> SetLoaded \<notin> set rest"
    using load_helpers_first [of init_loader env] by (simp add: init_loader_def)
next
  fix l :: loader assume "helpers_loaded l"
  then show "load_helpers env l = (None, l)" by (rule load_helpers_again)
next
  fix l :: loader show "helpers_loaded (snd (load_helpers env l))" by (rule load_helpers_sets_flag)
qed

text \<open>
  Three invocations with three applications installed: \<open>blog\<close>, a package without
  helpers; \<open>plain\<close>, a module without \<open>__path__\<close>; \<open>shop\<close>, a package with helpers.
\<close>

theorem load_helpers_runs_once_witness:
  "((\<lambda>l. snd (load_helpers (example_env (Inr \<lparr>mod_path = None\<rparr>)) l)) ^^ 3) init_loader =
     \<lparr>helpers_loaded = True,
      trace = [SetLoaded, Import ''jingo.helpers'',
               Import ''blog'', FindModule ''helpers'' [''/srv/blog''],
               Import ''plain'',
               Import ''shop'', FindModule ''helpers'' [''/srv/shop''], Import ''shop.helpers'']\<rparr>"
proof -
  have "snd (load_helpers (example_env (Inr \<lparr>mod_path = None\<rparr>)) init_loader) =
     \<lparr>helpers_loaded = True,
      trace = [SetLoaded, Import ''jingo.helpers'',
               Import ''blog'', FindModule ''helpers'' [''/srv/blog''],
               Import ''plain'',
               Import ''shop'', FindModule ''helpers'' [''/srv/shop''], Import ''shop.helpers'']\<rparr>"
    by (simp add: load_helpers_def init_loader_def example_env_def app_path_def Let_def)
  moreover have "(0::nat) < 3" by simp
  ultimately show ?thesis
    using load_helpers_runs_once [of 3 "example_env (Inr \<lparr>mod_path = None\<rparr>)"] by simp
qed

lemma load_apps_append:
  "load_apps env (xs @ ys) l =
     (case load_apps env xs l of (None, l') \<Rightarrow> load_apps env ys l' | (Some e, l') \<Rightarrow> (Some e, l'))"
  by (induction xs arbitrary: l) (auto simp add: Let_def split: sum.splits)

lemma load_apps_outcome: "fst (load_apps env apps l) = fst (load_apps env apps init_loader)"
proof (induction apps arbitrary: l)
  case Nil
  show ?case by simp
next
  case (Cons app apps)
  have "fst (load_apps env apps l1) = fst (load_apps env apps l2)" for l1 l2
    using Cons.IH [of l1] Cons.IH [of l2] by simp
  then show ?case
    by (auto simp add: Let_def split: sum.splits)
qed


lemma skip_no_path:
  assumes "import_module env app = Inr m" and "mod_path m = None"
  shows "load_apps env (app # apps) l = load_apps env apps (l\<lparr>trace := trace l @ [Import app]\<rparr>)"
  using assms by (simp add: app_path_def Let_def)

lemma skip_no_helpers:
  assumes "import_module env app = Inr m" and "mod_path m = Some p"
    and "find_module env ''helpers'' p = Inl ImportError"
  shows "load_apps env (app # apps) l =
    load_apps env apps (l\<lparr>trace := trace l @ [Import app, FindModule ''helpers'' p]\<rparr>)"
  using assms by (simp add: app_path_def Let_def)

lemma helpers_raise:
  assumes "import_module env app = Inr m" and "mod_path m = Some p"
    and "find_module env ''helpers'' p = Inr ()"
    and "import_module env (app @ ''.helpers'') = Inl e"
  shows "load_apps env (app # apps) l =
    (Some e, l\<lparr>trace := trace l @
        [Import app, FindModule ''helpers'' p, Import (app @ ''.helpers'')]\<rparr>)"
  using assms by (simp add: app_path_def Let_def)

lemma helpers_raise_later:
  assumes "fst (load_apps env pre l) = None"
    and "fst (load_apps env (app # apps) (snd (load_apps env pre l))) = Some e"
  shows "fst (load_apps env (pre @ app # apps) l) = Some e"
  using assms by (cases "load_apps env pre l") (simp add: load_apps_append)

text \<open>
  C6.  In the loop over the installed applications: an application whose import gives
  a module without \<open>__path__\<close> is passed over, with no error, no search for helpers and
  no further import, and the loop goes on with the next application; so is an
  application in whose path no module \<open>helpers\<close> is found.  When the helpers module is
  found and its import raises, whatever the exception, the loop ends there with that
  exception, and \<open>load_helpers\<close> raises it to its caller (when the applications before
  raised nothing and the adapter's own helpers were imported).
\<close>

theorem helper_discovery_skips_and_propagates:
  "(import_module env app = Inr m \<and> mod_path m = None \<longrightarrow>
      load_apps env (app # apps) l = load_apps env apps (l\<lparr>trace := trace l @ [Import app]\<rparr>)) \<and>
   (import_module env app = Inr m \<and> mod_path m = Some p \<and>
    find_module env ''helpers'' p = Inl ImportError \<longrightarrow>
      load_apps env (app # apps) l =
        load_apps env apps (l\<lparr>trace := trace l @ [Import app, FindModule ''helpers'' p]\<rparr>)) \<and>
   (import_module env app = Inr m \<and> mod_path m = Some p \<and>
    find_module env ''helpers'' p = Inr () \<and>
    import_module env (app @ ''.helpers'') = Inl e \<longrightarrow>
      load_apps env (app # apps) l =
        (Some e, l\<lparr>trace := trace l @
            [Import app, FindModule ''helpers'' p, Import (app @ ''.helpers'')]\<rparr>) \<and>
      (\<forall>pre l0 m0.
         \<not> helpers_loaded l0 \<and> import_module env ''jingo.helpers'' = Inr m0 \<and>
         installed_apps env = pre @ app # apps \<and> fst (load_apps env pre init_loader) = None \<longrightarrow>
         fst (load_helpers env l0) = Some e))"
proof (intro conjI impI allI)
  assume "import_module env app = Inr m \<and> mod_path m = None"
  then show "load_apps env (app # apps) l = load_apps env apps (l\<lparr>trace := trace l @ [Import app]\<rparr>)"
    by (simp add: skip_no_path del: load_apps.simps)
next
  assume "import_module env app = Inr m \<and> mod_path m = Some p \<and>
    find_module env ''helpers'' p = Inl ImportError"
  then show "load_apps env (app # apps) l =
        load_apps env apps (l\<lparr>trace := trace l @ [Import app, FindModule ''helpers'' p]\<rparr>)"
    by (simp add: skip_no_helpers del: load_apps.simps)
next
  assume h: "import_module env app = Inr m \<and> mod_path m = Some p \<and>
    find_module env ''helpers'' p = Inr () \<and>
    import_module env (app @ ''.helpers'') = Inl e"
  then show "load_apps env (app # apps) l =
        (Some e, l\<lparr>trace := trace l @
            [Import app, FindModule ''helpers'' p, Import (app @ ''.helpers'')]\<rparr>)"
    by (simp add: helpers_raise del: load_apps.simps)
  fix pre and l0 :: loader and m0
  assume a: "\<not> helpers_loaded l0 \<and> import_module env ''jingo.helpers'' = Inr m0 \<and>
         installed_apps env = pre @ app # apps \<and> fst (load_apps env pre init_loader) = None"
  let ?l2 = "l0\<lparr>helpers_loaded := True, trace := trace l0 @ [SetLoaded, Import ''jingo.helpers'']\<rparr>"
  from a have "fst (load_apps env pre ?l2) = None"
    using load_apps_outcome [of env pre ?l2] by simp
  moreover from h have "fst (load_apps env (app # apps) (snd (load_apps env pre ?l2))) = Some e"
    by (simp add: helpers_raise del: load_apps.simps)
  ultimately have "fst (load_apps env (pre @ app # apps) ?l2) = Some e"
    by (rule helpers_raise_later)
  with a show "fst (load_helpers env l0) = Some e"
    by (simp add: load_helpers_def Let_def)
qed

text \<open>
  The applications \<open>blog\<close>, \<open>plain\<close> and \<open>shop\<close>, the helpers of \<open>shop\<close> raising a
  syntax error: the first two are passed over and the error reaches the caller.
\<close>

theorem helper_discovery_skips_and_propagates_witness:
  "load_helpers (example_env (Inl (OtherError ''SyntaxError''))) init_loader =
     (Some (OtherError ''SyntaxError''),
      \<lparr>helpers_loaded = True,
       trace = [SetLoaded, Import ''jingo.helpers'',
                Import ''blog'', FindModule ''helpers'' [''/srv/blog''],
                Import ''plain'',
                Import ''shop'', FindModule ''helpers'' [''/srv/shop''], Import ''shop.helpers'']\<rparr>)"
proof -
  let ?env = "example_env (Inl (OtherError ''SyntaxError''))"
  have "import_module ?env ''shop'' = Inr \<lparr>mod_path = Some [''/srv/shop'']\<rparr> \<and>
      mod_path \<lparr>mod_path = Some [''/srv/shop'']\<rparr> = Some [''/srv/shop''] \<and>
      find_module ?env ''helpers'' [''/srv/shop''] = Inr () \<and>
      import_module ?env (''shop'' @ ''.helpers'') = Inl (OtherError ''SyntaxError'')"
    by (simp add: example_env_def)
  moreover have "\<not> helpers_loaded init_loader \<and>
      import_module ?env ''jingo.helpers'' = Inr \<lparr>mod_path = None\<rparr> \<and>
      installed_apps ?env = [''blog'', ''plain''] @ ''shop'' # [] \<and>
      fst (load_apps ?env [''blog'', ''plain''] init_loader) = None"
    by (simp add: example_env_def init_loader_def app_path_def Let_def)
  ultimately have "fst (load_helpers ?env init_loader) = Some (OtherError ''SyntaxError'')"
    using helper_discovery_skips_and_propagates [of ?env "''shop''"
        "\<lparr>mod_path = Some [''/srv/shop'']\<rparr>" "[]" init_loader "[''/srv/shop'']"
        "OtherError ''SyntaxError''"]
    by blast
  moreover have "snd (load_helpers ?env init_loader) =
      \<lparr>helpers_loaded = True,
       trace = [SetLoaded, Import ''jingo.helpers'',
                Import ''blog'', FindModule ''helpers'' [''/srv/blog''],
                Import ''plain'',
                Import ''shop'', FindModule ''helpers'' [''/srv/shop''], Import ''shop.helpers'']\<rparr>"
    by (simp add: load_helpers_def example_env_def init_loader_def app_path_def Let_def)
  ultimately show ?thesis
    by (simp add: prod_eq_iff)
qed

section \<open>The context resolver\<close>

lemma run_processors_returns:
  assumes "map (\<lambda>p. snd p (request w)) ps = map Inr ds"
  shows "run_processors ps a w =
     (None, w\<lparr>cells := (cells w)(a := foldl (++) (cells w a) ds),
              invoked := invoked w @ map fst ps\<rparr>)"
  using assms
proof (induction ps arbitrary: w ds)
  case Nil
  then show ?case by simp
next
  case (Cons p ps)
  from Cons.prems obtain d ds' where ds: "ds = d # ds'" and d: "snd p (request w) = Inr d"
    and rest: "map (\<lambda>p. snd p (request w)) ps = map Inr ds'"
    by (cases ds) auto
  let ?w1 = "dict_update a d (w\<lparr>invoked := invoked w @ [fst p]\<rparr>)"
  have req: "request ?w1 = request w" by (simp add: dict_update_def)
  from rest req have "map (\<lambda>p. snd p (request ?w1)) ps = map Inr ds'" by simp
  from Cons.IH [OF this]
  have "run_processors ps a ?w1 =
     (None, ?w1\<lparr>cells := (cells ?w1)(a := foldl (++) (cells ?w1 a) ds'),
              invoked := invoked ?w1 @ map fst ps\<rparr>)" .
  moreover have "?w1\<lparr>cells := (cells ?w1)(a := foldl (++) (cells ?w1 a) ds'),
              invoked := invoked ?w1 @ map fst ps\<rparr> =
      w\<lparr>cells := (cells w)(a := foldl (++) (cells w a) ds),
        invoked := invoked w @ map fst (p # ps)\<rparr>"
    by (rule world.equality) (simp_all add: ds dict_update_def update_def fun_eq_iff)
  moreover have "run_processors (p # ps) a w = run_processors ps a ?w1"
    using d by (simp add: Let_def)
  ultimately show ?case
    by (simp only:)
qed

lemma run_processors_none:
  "fst (run_processors ps a w) = None \<Longrightarrow> \<exists>ds. map (\<lambda>p. snd p (request w)) ps = map Inr ds"
proof (induction ps arbitrary: w)
  case Nil
  then show ?case by simp
next
  case (Cons p ps)
  show ?case
  proof (cases "snd p (request w)")
    case (Inl e)
    with Cons.prems show ?thesis by (simp add: Let_def)
  next
    case (Inr d)
    let ?w1 = "dict_update a d (w\<lparr>invoked := invoked w @ [fst p]\<rparr>)"
    have req: "request ?w1 = request w" by (simp add: dict_update_def)
    from Cons.prems Inr have "fst (run_processors ps a ?w1) = None" by (simp add: Let_def)
    from Cons.IH [OF this] req obtain ds where "map (\<lambda>p. snd p (request w)) ps = map Inr ds"
      by auto
    with Inr have "map (\<lambda>p. snd p (request w)) (p # ps) = map Inr (d # ds)" by simp
    then show ?thesis by blast
  qed
qed

lemma run_processors_any:
  "\<exists>n. n \<le> length ps \<and>
       invoked (snd (run_processors ps a w)) = invoked w @ map fst (take n ps) \<and>
       request (snd (run_processors ps a w)) = request w \<and>
       fresh (snd (run_processors ps a w)) = fresh w \<and>
       (\<forall>b. b \<noteq> a \<longrightarrow> cells (snd (run_processors ps a w)) b = cells w b)"
proof (induction ps arbitrary: w)
  case Nil
  show ?case by simp
next
  case (Cons p ps)
  show ?case
  proof (cases "snd p (request w)")
    case (Inl e)
    then have "invoked (snd (run_processors (p # ps) a w)) = invoked w @ map fst (take 1 (p # ps))"
      and "request (snd (run_processors (p # ps) a w)) = request w"
      and "fresh (snd (run_processors (p # ps) a w)) = fresh w"
      and "\<forall>b. b \<noteq> a \<longrightarrow> cells (snd (run_processors (p # ps) a w)) b = cells w b"
      by (simp_all add: Let_def)
    moreover have "(1::nat) \<le> length (p # ps)" by simp
    ultimately show ?thesis by blast
  next
    case (Inr d)
    let ?w1 = "dict_update a d (w\<lparr>invoked := invoked w @ [fst p]\<rparr>)"
    from Cons.IH [of ?w1] obtain n where n: "n \<le> length ps"
      "invoked (snd (run_processors ps a ?w1)) = invoked ?w1 @ map fst (take n ps)"
      "request (snd (run_processors ps a ?w1)) = request ?w1"
      "fresh (snd (run_processors ps a ?w1)) = fresh ?w1"
      "\<forall>b. b \<noteq> a \<longrightarrow> cells (snd (run_processors ps a ?w1)) b = cells ?w1 b"
      by blast
    have r: "run_processors (p # ps) a w = run_processors ps a ?w1"
      using Inr by (simp add: Let_def)
    have "Suc n \<le> length (p # ps)" using n(1) by simp
    moreover have "invoked (snd (run_processors (p # ps) a w)) =
        invoked w @ map fst (take (Suc n) (p # ps))"
      unfolding r using n(2) by (simp add: dict_update_def)
    moreover have "request (snd (run_processors (p # ps) a w)) = request w"
      unfolding r using n(3) by (simp add: dict_update_def)
    moreover have "fresh (snd (run_processors (p # ps) a w)) = fresh w"
      unfolding r using n(4) by (simp add: dict_update_def)
    moreover have "\<forall>b. b \<noteq> a \<longrightarrow> cells (snd (run_processors (p # ps) a w)) b = cells w b"
      unfolding r using n(5) by (simp add: dict_update_def)
    ultimately show ?thesis by blast
  qed
qed


lemma get_context_first:
  assumes "jingo_context (request w) = None"
    and "run_processors ps (fresh w)
           (w\<lparr>cells := (cells w)(fresh w := Map.empty), fresh := Suc (fresh w),
              request := (request w)\<lparr>jingo_context := Some (fresh w)\<rparr>\<rparr>) = (r, w1)"
    and "fresh w1 = Suc (fresh w)"
  shows "fst (get_context ps context w) =
           (case r of Some e \<Rightarrow> Inl e | None \<Rightarrow> Inr (Suc (fresh w)))"
    and "invoked (snd (get_context ps context w)) = invoked w1"
    and "request (snd (get_context ps context w)) = request w1"
    and "fresh (snd (get_context ps context w)) =
           (case r of Some e \<Rightarrow> Suc (fresh w) | None \<Rightarrow> Suc (Suc (fresh w)))"
    and "cells (snd (get_context ps context w)) b =
           (case r of
              Some e \<Rightarrow> cells w1 b
            | None \<Rightarrow>
                if b = Suc (fresh w)
                then (case context of None \<Rightarrow> Map.empty | Some c \<Rightarrow> cells w1 c) ++
                     cells w1 (fresh w)
                else cells w1 b)"
  using assms
  by (cases r; cases "context";
      simp add: get_context_def alloc_def dict_update_def update_def Let_def)+

lemma get_context_later:
  assumes "jingo_context (request w) = Some a"
  shows "get_context ps context w =
    (Inr (fresh w),
     w\<lparr>cells := (cells w)
          (fresh w :=
             (case context of None \<Rightarrow> Map.empty | Some c \<Rightarrow> cells w c) ++
             (if a = fresh w
              then (case context of None \<Rightarrow> Map.empty | Some c \<Rightarrow> cells w c)
              else cells w a)),
       fresh := Suc (fresh w)\<rparr>)"
  using assms
  by (cases "context")
     (simp_all add: get_context_def alloc_def dict_update_def update_def Let_def)


lemma first_resolution:
  "\<exists>r w1 n.
     run_processors ps (fresh w)
       (w\<lparr>cells := (cells w)(fresh w := Map.empty), fresh := Suc (fresh w),
          request := (request w)\<lparr>jingo_context := Some (fresh w)\<rparr>\<rparr>) = (r, w1) \<and>
     n \<le> length ps \<and> invoked w1 = invoked w @ map fst (take n ps) \<and>
     request w1 = (request w)\<lparr>jingo_context := Some (fresh w)\<rparr> \<and>
     fresh w1 = Suc (fresh w) \<and>
     (\<forall>b. b \<noteq> fresh w \<longrightarrow> cells w1 b = cells w b) \<and>
     (r = None \<longrightarrow>
        (\<exists>ds. map (\<lambda>p. snd p ((request w)\<lparr>jingo_context := Some (fresh w)\<rparr>)) ps = map Inr ds \<and>
              invoked w1 = invoked w @ map fst ps \<and>
              cells w1 (fresh w) = foldl (++) Map.empty ds)) \<and>
     ((\<exists>ds. map (\<lambda>p. snd p ((request w)\<lparr>jingo_context := Some (fresh w)\<rparr>)) ps = map Inr ds)
        \<longrightarrow> r = None)"
proof -
  let ?w = "w\<lparr>cells := (cells w)(fresh w := Map.empty), fresh := Suc (fresh w),
          request := (request w)\<lparr>jingo_context := Some (fresh w)\<rparr>\<rparr>"
  let ?req = "(request w)\<lparr>jingo_context := Some (fresh w)\<rparr>"
  obtain r w1 where run: "run_processors ps (fresh w) ?w = (r, w1)"
    by (cases "run_processors ps (fresh w) ?w")
  from run_processors_any [of ps "fresh w" ?w] run obtain n where
    n: "n \<le> length ps" "invoked w1 = invoked w @ map fst (take n ps)"
      "request w1 = ?req" "fresh w1 = Suc (fresh w)"
      "\<forall>b. b \<noteq> fresh w \<longrightarrow> cells w1 b = cells w b"
    by auto
  have ret: "r = None \<and> invoked w1 = invoked w @ map fst ps \<and>
      cells w1 (fresh w) = foldl (++) Map.empty ds"
    if "map (\<lambda>p. snd p ?req) ps = map Inr ds" for ds
  proof -
    from that have "map (\<lambda>p. snd p (request ?w)) ps = map Inr ds" by simp
    from run_processors_returns [OF this, of "fresh w"] run show ?thesis by auto
  qed
  have none: "\<exists>ds. map (\<lambda>p. snd p ?req) ps = map Inr ds \<and>
              invoked w1 = invoked w @ map fst ps \<and>
              cells w1 (fresh w) = foldl (++) Map.empty ds" if "r = None"
  proof -
    from that run have "fst (run_processors ps (fresh w) ?w) = None" by simp
    from run_processors_none [OF this] obtain ds where
      "map (\<lambda>p. snd p ?req) ps = map Inr ds" by auto
    with ret [of ds] show ?thesis by blast
  qed
  from run n none ret show ?thesis by blast
qed


lemma get_context_frame:
  assumes "a < fresh w"
  shows "cells (snd (get_context ps context w)) a = cells w a \<and>
         fresh w \<le> fresh (snd (get_context ps context w)) \<and>
         (\<forall>ctx. fst (get_context ps context w) = Inr ctx \<longrightarrow>
            fresh w \<le> ctx \<and> ctx < fresh (snd (get_context ps context w)))"
proof (cases "jingo_context (request w)")
  case None
  from first_resolution [of ps w] obtain r w1 where
    run: "run_processors ps (fresh w)
       (w\<lparr>cells := (cells w)(fresh w := Map.empty), fresh := Suc (fresh w),
          request := (request w)\<lparr>jingo_context := Some (fresh w)\<rparr>\<rparr>) = (r, w1)"
    and fr: "fresh w1 = Suc (fresh w)"
    and ce: "\<forall>b. b \<noteq> fresh w \<longrightarrow> cells w1 b = cells w b"
    by blast
  from assms ce have "cells w1 a = cells w a" by simp
  with assms show ?thesis
    by (cases r) (simp_all add: get_context_first [OF None run fr])
next
  case (Some b)
  with assms show ?thesis by (simp add: get_context_later)
qed

lemma Template_render_frame:
  assumes "a < fresh s"
  shows "cells (snd (Template_render j t c s)) a = cells s a"
  using assms by (simp add: Template_render_def alloc_def Let_def)

text \<open>
  C2.  Whatever the request, the explicit context and the processors are, the mapping
  the resolver returns is the explicit mapping (the empty one when there is none)
  overwritten by the processor output: the outputs of the processors merged in order on
  the first resolution of the request, and the mapping stored on the request after
  that.  A key of the processor output has the processor's value in the result, whether
  the explicit mapping has it or not; the other keys have the caller's value.  The
  resolver returns a mapping when the request has its stored mapping already, and when
  every processor returns.  The references the call is given are references to objects
  that exist.
\<close>

theorem processors_override_explicit:
  "(\<forall>c. context = Some c \<longrightarrow> c < fresh w) \<and>
   (\<forall>b. jingo_context (request w) = Some b \<longrightarrow> b < fresh w) \<longrightarrow>
   (\<forall>ctx w'. get_context ps context w = (Inr ctx, w') \<longrightarrow>
      (\<exists>a. jingo_context (request w') = Some a \<and>
         (case jingo_context (request w) of
            None \<Rightarrow>
              \<exists>ds. map (\<lambda>p. snd p ((request w)\<lparr>jingo_context := Some (fresh w)\<rparr>)) ps =
                     map Inr ds \<and>
                   cells w' a = foldl (++) Map.empty ds
          | Some b \<Rightarrow> cells w' a = cells w b) \<and>
         cells w' ctx = explicit_mapping w context ++ cells w' a \<and>
         (\<forall>k v. cells w' a k = Some v \<longrightarrow> cells w' ctx k = Some v) \<and>
         (\<forall>k. cells w' a k = None \<longrightarrow> cells w' ctx k = explicit_mapping w context k))) \<and>
   (jingo_context (request w) \<noteq> None \<or>
    (\<exists>ds. map (\<lambda>p. snd p ((request w)\<lparr>jingo_context := Some (fresh w)\<rparr>)) ps = map Inr ds) \<longrightarrow>
      (\<exists>ctx w'. get_context ps context w = (Inr ctx, w')))"
proof (intro impI conjI allI)
  fix ctx w'
  assume wf: "(\<forall>c. context = Some c \<longrightarrow> c < fresh w) \<and>
   (\<forall>b. jingo_context (request w) = Some b \<longrightarrow> b < fresh w)"
  assume g: "get_context ps context w = (Inr ctx, w')"
  have main: "\<exists>a. jingo_context (request w') = Some a \<and>
         (case jingo_context (request w) of
            None \<Rightarrow>
              \<exists>ds. map (\<lambda>p. snd p ((request w)\<lparr>jingo_context := Some (fresh w)\<rparr>)) ps =
                     map Inr ds \<and>
                   cells w' a = foldl (++) Map.empty ds
          | Some b \<Rightarrow> cells w' a = cells w b) \<and>
         cells w' ctx = explicit_mapping w context ++ cells w' a"
  proof (cases "jingo_context (request w)")
    case None
    from first_resolution [of ps w] obtain r w1 where
      run: "run_processors ps (fresh w)
         (w\<lparr>cells := (cells w)(fresh w := Map.empty), fresh := Suc (fresh w),
            request := (request w)\<lparr>jingo_context := Some (fresh w)\<rparr>\<rparr>) = (r, w1)"
      and rq: "request w1 = (request w)\<lparr>jingo_context := Some (fresh w)\<rparr>"
      and fr: "fresh w1 = Suc (fresh w)"
      and ce: "\<forall>b. b \<noteq> fresh w \<longrightarrow> cells w1 b = cells w b"
      and rn: "r = None \<longrightarrow>
        (\<exists>ds. map (\<lambda>p. snd p ((request w)\<lparr>jingo_context := Some (fresh w)\<rparr>)) ps = map Inr ds \<and>
              invoked w1 = invoked w @ map fst ps \<and>
              cells w1 (fresh w) = foldl (++) Map.empty ds)"
      by blast
    note f = get_context_first [OF None run fr, of "context"]
    from g f(1) have r: "r = None" and ctx: "ctx = Suc (fresh w)"
      by (cases r; simp)+
    from r rn obtain ds where
      ds: "map (\<lambda>p. snd p ((request w)\<lparr>jingo_context := Some (fresh w)\<rparr>)) ps = map Inr ds"
      and out: "cells w1 (fresh w) = foldl (++) Map.empty ds"
      by blast
    from wf ce have ex: "(case context of None \<Rightarrow> Map.empty | Some c \<Rightarrow> cells w1 c) =
        explicit_mapping w context"
      by (auto simp add: explicit_mapping_def split: option.splits)
    from g f(3) rq have "jingo_context (request w') = Some (fresh w)" by simp
    moreover from g f(5) [of "fresh w"] r out have "cells w' (fresh w) = foldl (++) Map.empty ds"
      by simp
    moreover from g f(5) [of ctx] r ctx ex
    have "cells w' ctx = explicit_mapping w context ++ cells w1 (fresh w)" by simp
    ultimately show ?thesis
      using None ds out by auto
  next
    case (Some b)
    with wf have "b \<noteq> fresh w" by auto
    with Some g show ?thesis
      by (auto simp add: get_context_later explicit_mapping_def)
  qed
  then obtain a where a: "jingo_context (request w') = Some a"
      "case jingo_context (request w) of
            None \<Rightarrow>
              \<exists>ds. map (\<lambda>p. snd p ((request w)\<lparr>jingo_context := Some (fresh w)\<rparr>)) ps =
                     map Inr ds \<and>
                   cells w' a = foldl (++) Map.empty ds
          | Some b \<Rightarrow> cells w' a = cells w b"
      "cells w' ctx = explicit_mapping w context ++ cells w' a"
    by blast
  have "\<forall>k v. cells w' a k = Some v \<longrightarrow> cells w' ctx k = Some v"
    by (simp add: a(3))
  moreover have "\<forall>k. cells w' a k = None \<longrightarrow> cells w' ctx k = explicit_mapping w context k"
    by (simp add: a(3) map_add_def)
  ultimately show "\<exists>a. jingo_context (request w') = Some a \<and>
         (case jingo_context (request w) of
            None \<Rightarrow>
              \<exists>ds. map (\<lambda>p. snd p ((request w)\<lparr>jingo_context := Some (fresh w)\<rparr>)) ps =
                     map Inr ds \<and>
                   cells w' a = foldl (++) Map.empty ds
          | Some b \<Rightarrow> cells w' a = cells w b) \<and>
         cells w' ctx = explicit_mapping w context ++ cells w' a \<and>
         (\<forall>k v. cells w' a k = Some v \<longrightarrow> cells w' ctx k = Some v) \<and>
         (\<forall>k. cells w' a k = None \<longrightarrow> cells w' ctx k = explicit_mapping w context k)"
    using a by blast
next
  assume ret: "jingo_context (request w) \<noteq> None \<or>
    (\<exists>ds. map (\<lambda>p. snd p ((request w)\<lparr>jingo_context := Some (fresh w)\<rparr>)) ps = map Inr ds)"
  show "\<exists>ctx w'. get_context ps context w = (Inr ctx, w')"
  proof (cases "jingo_context (request w)")
    case None
    from first_resolution [of ps w] obtain r w1 where
      run: "run_processors ps (fresh w)
         (w\<lparr>cells := (cells w)(fresh w := Map.empty), fresh := Suc (fresh w),
            request := (request w)\<lparr>jingo_context := Some (fresh w)\<rparr>\<rparr>) = (r, w1)"
      and fr: "fresh w1 = Suc (fresh w)"
      and rn: "(\<exists>ds. map (\<lambda>p. snd p ((request w)\<lparr>jingo_context := Some (fresh w)\<rparr>)) ps = map Inr ds)
        \<longrightarrow> r = None"
      by blast
    from ret None rn have "r = None" by simp
    with get_context_first(1) [OF None run fr, of "context"]
    have "fst (get_context ps context w) = Inr (Suc (fresh w))" by simp
    then show ?thesis by (cases "get_context ps context w") auto
  next
    case (Some b)
    then show ?thesis by (simp add: get_context_later)
  qed
qed

text \<open>The explicit context \<open>{"x": 1}\<close> and a processor returning \<open>{"x": 2, "y": 3}\<close>.\<close>

theorem processors_override_explicit_witness:
  "get_context example_processors (Some 0) example_world =
     (Inr 2,
      \<lparr>cells = (\<lambda>a. Map.empty)
         (0 := [''x'' \<mapsto> PyInt 1],
          1 := [''x'' \<mapsto> PyInt 2, ''y'' \<mapsto> PyInt 3],
          2 := [''x'' \<mapsto> PyInt 2, ''y'' \<mapsto> PyInt 3]),
       fresh = 3, request = \<lparr>req_data = (), jingo_context = Some 1\<rparr>, invoked = [''site'']\<rparr>) \<and>
   explicit_mapping example_world (Some 0) = [''x'' \<mapsto> PyInt 1]"
proof -
  have wf: "(\<forall>c. Some (0::nat) = Some c \<longrightarrow> c < fresh example_world) \<and>
   (\<forall>b. jingo_context (request example_world) = Some b \<longrightarrow> b < fresh example_world)"
    by (simp add: example_world_def)
  have e: "explicit_mapping example_world (Some 0) = [''x'' \<mapsto> PyInt 1]"
    by (simp add: explicit_mapping_def example_world_def)
  have g: "get_context example_processors (Some 0) example_world =
     (Inr 2,
      \<lparr>cells = (\<lambda>a. Map.empty)
         (0 := [''x'' \<mapsto> PyInt 1],
          1 := [''x'' \<mapsto> PyInt 2, ''y'' \<mapsto> PyInt 3],
          2 := [''x'' \<mapsto> PyInt 2, ''y'' \<mapsto> PyInt 3]),
       fresh = 3, request = \<lparr>req_data = (), jingo_context = Some 1\<rparr>, invoked = [''site'']\<rparr>)"
    by (simp add: get_context_def example_processors_def example_world_def alloc_def
          dict_update_def update_def Let_def fun_eq_iff)
  from processors_override_explicit [of "Some 0" example_world example_processors] wf g
  have "\<exists>a. cells
      (\<lparr>cells = (\<lambda>a. Map.empty)
         (0 := [''x'' \<mapsto> PyInt 1],
          1 := [''x'' \<mapsto> PyInt 2, ''y'' \<mapsto> PyInt 3],
          2 := [''x'' \<mapsto> PyInt 2, ''y'' \<mapsto> PyInt 3]),
       fresh = 3, request = \<lparr>req_data = (), jingo_context = Some (1::nat)\<rparr>,
       invoked = [''site'']\<rparr> :: unit world) 2 =
      explicit_mapping example_world (Some 0) ++
      cells (\<lparr>cells = (\<lambda>a. Map.empty)
         (0 := [''x'' \<mapsto> PyInt 1],
          1 := [''x'' \<mapsto> PyInt 2, ''y'' \<mapsto> PyInt 3],
          2 := [''x'' \<mapsto> PyInt 2, ''y'' \<mapsto> PyInt 3]),
       fresh = 3, request = \<lparr>req_data = (), jingo_context = Some (1::nat)\<rparr>,
       invoked = [''site'']\<rparr> :: unit world) a"
    by blast
  with g e show ?thesis by simp
qed







section \<open>\<open>render_to_string\<close> and the caller's context\<close>

lemma render_to_string_frame:
  assumes "a < fresh w"
  shows "cells (snd (snd (render_to_string env j ps template context (l, w)))) a = cells w a"
proof -
  obtain r w1 where g: "get_context ps context w = (r, w1)"
    by (cases "get_context ps context w")
  from get_context_frame [OF assms, of ps "context"] g
  have w1: "cells w1 a = cells w a" and fr: "fresh w \<le> fresh w1"
    by simp_all
  with assms have "a < fresh w1" by simp
  then have "cells w2 a = cells w a"
    if "Template_render j t c w1 = (x, w2)" for t c x w2
    using w1 that Template_render_frame [of a w1 j t c] by simp
  then show ?thesis
    using g w1
    by (auto simp add: render_to_string_def Environment_get_template_def
          split: template_arg.splits sum.splits prod.splits option.splits)
qed

text \<open>
  C10.  \<open>render_to_string\<close> does not change the dictionary the caller passes as
  explicit context: whatever the request, the template and the outcome are, the object
  has after the call the contents it had before.  The resolver returns a reference to
  another object, the copy, and it is the copy that receives the processor output.  The
  same holds of every dictionary that existed before the call.
\<close>

theorem render_to_string_keeps_explicit_context:
  "c < fresh w \<longrightarrow>
     cells (snd (snd (render_to_string env j ps template (Some c) (l, w)))) c = cells w c \<and>
     cells (snd (get_context ps (Some c) w)) c = cells w c \<and>
     fst (get_context ps (Some c) w) \<noteq> Inr c \<and>
     (\<forall>a. a < fresh w \<longrightarrow>
        cells (snd (snd (render_to_string env j ps template (Some c) (l, w)))) a = cells w a)"
proof (intro impI conjI allI)
  assume c: "c < fresh w"
  then show "cells (snd (snd (render_to_string env j ps template (Some c) (l, w)))) c = cells w c"
    by (rule render_to_string_frame)
  from get_context_frame [OF c, of ps "Some c"]
  show "cells (snd (get_context ps (Some c) w)) c = cells w c"
    and "fst (get_context ps (Some c) w) \<noteq> Inr c"
    using c by auto
next
  fix a assume "a < fresh w"
  then show "cells (snd (snd (render_to_string env j ps template (Some c) (l, w)))) a = cells w a"
    by (rule render_to_string_frame)
qed

text \<open>
  The caller's \<open>{"x": 1}\<close> is still \<open>{"x": 1}\<close> after a rendering in which a
  processor returns another value for \<open>x\<close>.
\<close>

theorem render_to_string_keeps_explicit_context_witness:
  "cells (snd (snd (render_to_string (example_env (Inr \<lparr>mod_path = None\<rparr>))
       \<lparr>jinja_get_template = (\<lambda>name. Inr name), jinja_render = (\<lambda>t d. Inr t)\<rparr>
       example_processors (TemplatePath ''t.html'') (Some 0) (init_loader, example_world)))) 0 =
     [''x'' \<mapsto> PyInt 1]"
proof -
  have "(0::nat) < fresh example_world" and "cells example_world 0 = [''x'' \<mapsto> PyInt 1]"
    by (simp_all add: example_world_def)
  then show ?thesis
    using render_to_string_keeps_explicit_context [of 0 example_world
        "example_env (Inr \<lparr>mod_path = None\<rparr>)"
        "\<lparr>jinja_get_template = (\<lambda>name. Inr name), jinja_render = (\<lambda>t d. Inr t)\<rparr>"
        example_processors "TemplatePath ''t.html''" init_loader]
    by simp
qed

end
